theory Spec2Isabelle
  imports Complex_Main
begin

section \<open>JavaScript values used by the timeline engine\<close>

text \<open>
  The repository holds successive versions of one React component (\<open>App.js\<close>).  The
  engine functions are embedded from \<open>src/unnamed/part_005\<close> (the version with category
  filtering; \<open>App (24).js\<close> and the second document of \<open>App (09).js\<close> agree with it),
  and, where an earlier version differs, from \<open>src/unnamed/part_000\<close> (strict cross-midnight
  test), \<open>src/unnamed/part_004\<close> (\<open>getWeeks\<close>) and \<open>App (19).js\<close>
  (\<open>blockMatchesFilters\<close>).

  A JavaScript number is modelled as \<open>rat option\<close>: \<open>None\<close> is NaN, \<open>Some q\<close> a finite
  number; rounding of doubles is not modelled.  Comparisons with NaN are false.
\<close>

type_synonym number = "rat option"

definition num_add :: "number \<Rightarrow> number \<Rightarrow> number" where
  "num_add a b = (case (a, b) of (Some x, Some y) \<Rightarrow> Some (x + y) | _ \<Rightarrow> None)"

definition num_sub :: "number \<Rightarrow> number \<Rightarrow> number" where
  "num_sub a b = (case (a, b) of (Some x, Some y) \<Rightarrow> Some (x - y) | _ \<Rightarrow> None)"

definition num_mul :: "number \<Rightarrow> number \<Rightarrow> number" where
  "num_mul a b = (case (a, b) of (Some x, Some y) \<Rightarrow> Some (x * y) | _ \<Rightarrow> None)"

definition num_div60 :: "number \<Rightarrow> number" where
  "num_div60 a = (case a of Some x \<Rightarrow> Some (x / 60) | None \<Rightarrow> None)"

definition num_le :: "number \<Rightarrow> number \<Rightarrow> bool" where
  "num_le a b = (case (a, b) of (Some x, Some y) \<Rightarrow> x \<le> y | _ \<Rightarrow> False)"

definition num_lt :: "number \<Rightarrow> number \<Rightarrow> bool" where
  "num_lt a b = (case (a, b) of (Some x, Some y) \<Rightarrow> x < y | _ \<Rightarrow> False)"

text \<open>
  Unary plus on a string, \<open>+s\<close>: a run of decimal digits is its value and the empty
  string is 0.  Every other string is read as NaN; the notations JavaScript also accepts
  (sign, fraction, exponent, hexadecimal, surrounding blanks) do not occur in clock codes
  and are not modelled.
\<close>

definition is_digit :: "char \<Rightarrow> bool" where
  "is_digit c = (c \<in> set ''0123456789'')"

definition digit_val :: "char \<Rightarrow> nat" where
  "digit_val c = of_char c - 48"

definition toNumber :: "string \<Rightarrow> nat option" where
  "toNumber s =
     (if list_all is_digit s then Some (foldl (\<lambda>n c. 10 * n + digit_val c) 0 s) else None)"

definition toNum :: "string \<Rightarrow> number" where
  "toNum s = map_option of_nat (toNumber s)"

text \<open>A well-formed clock code: four digits \<open>HHMM\<close>, hour 0 to 23, minute 0 to 59.\<close>

definition clock_code :: "string \<Rightarrow> bool" where
  "clock_code s =
     (length s = 4 \<and> list_all is_digit s \<and>
      (case (toNumber (take 2 s), toNumber (drop 2 s)) of
         (Some h, Some m) \<Rightarrow> h < 24 \<and> m < 60
       | _ \<Rightarrow> False))"

section \<open>Temperature bands\<close>

text \<open>\<open>tempToColor\<close>; \<open>temp == null\<close> holds for \<open>null\<close> and \<open>undefined\<close>, both \<open>None\<close> here.\<close>

definition tempToColor :: "rat option \<Rightarrow> string" where
  "tempToColor temp =
     (case temp of
        None \<Rightarrow> ''transparent''
      | Some t \<Rightarrow>
          if t \<le> - 30 then ''#2c003e''
          else if t \<le> - 10 then ''#0033cc''
          else if t \<le> 0 then ''#33ccff''
          else if t \<le> 10 then ''#66ffcc''
          else if t \<le> 20 then ''#ffff99''
          else if t \<le> 30 then ''#ffcc00''
          else ''#ff3300'')"

text \<open>The seven band colours that \<open>tempToColor\<close> returns for a number.\<close>

definition tempBands :: "string list" where
  "tempBands =
     [''#2c003e'', ''#0033cc'', ''#33ccff'', ''#66ffcc'', ''#ffff99'', ''#ffcc00'', ''#ff3300'']"

section \<open>Time Interval Model\<close>

record segment =
  left :: number
  width :: number

text \<open>
  The geometry computed by the body of \<open>renderBlocks\<close> for one block \<open>[start, end]\<close>
  (part_005, lines 161 to 173): the cross-midnight test is \<open>eH <= sH\<close>.
\<close>

definition blockInterval :: "string \<Rightarrow> string \<Rightarrow> number \<times> number" where
  "blockInterval start end =
     (let sh = toNum (take 2 start); sm = toNum (drop 2 start);
          sH = num_add sh (num_div60 sm);
          eh = toNum (take 2 end); em = toNum (drop 2 end);
          eH = num_add eh (num_div60 em);
          eH = (if num_le eH sH then num_add eH (Some 24) else eH)
      in (sH, eH))"

definition blockSegment :: "rat \<Rightarrow> string \<Rightarrow> string \<Rightarrow> segment" where
  "blockSegment hourPx start end =
     (case blockInterval start end of
        (sH, eH) \<Rightarrow>
          \<lparr>left = num_mul sH (Some hourPx), width = num_mul (num_sub eH sH) (Some hourPx)\<rparr>)"

text \<open>
  The same body in part_000 (lines 111 to 117; also part_001, part_003, \<open>App (08).js\<close>,
  \<open>App (10).js\<close>): the cross-midnight test is the strict \<open>eH < sH\<close>.
\<close>

definition blockInterval_000 :: "string \<Rightarrow> string \<Rightarrow> number \<times> number" where
  "blockInterval_000 start end =
     (let sh = toNum (take 2 start); sm = toNum (drop 2 start);
          eh = toNum (take 2 end); em = toNum (drop 2 end);
          sH = num_add sh (num_div60 sm);
          eH = num_add eh (num_div60 em);
          eH = (if num_lt eH sH then num_add eH (Some 24) else eH)
      in (sH, eH))"

definition blockSegment_000 :: "rat \<Rightarrow> string \<Rightarrow> string \<Rightarrow> segment" where
  "blockSegment_000 hourPx start end =
     (case blockInterval_000 start end of
        (sH, eH) \<Rightarrow>
          \<lparr>left = num_mul sH (Some hourPx), width = num_mul (num_sub eH sH) (Some hourPx)\<rparr>)"

text \<open>The parsed fractional hour of a clock code, \<open>hh + mm/60\<close>, before any adjustment.\<close>

definition parsedHour :: "string \<Rightarrow> number" where
  "parsedHour s = num_add (toNum (take 2 s)) (num_div60 (toNum (drop 2 s)))"

section \<open>Calendar dates\<close>

text \<open>
  A \<open>Date\<close> object is modelled by its calendar day, counted in days from 1970-01-01.
  Every \<open>Date\<close> the engine handles is built from the configured range by \<open>setDate\<close>,
  so all of them carry the same time of day and comparing two of them compares their days.
  \<open>getDay\<close> is the weekday with Sunday = 0 (1970-01-01 was a Thursday), and
  \<open>setDate(getDate() + k)\<close> moves the day by \<open>k\<close>.
\<close>

type_synonym date = int

definition getDay :: "date \<Rightarrow> int" where
  "getDay d = (d + 4) mod 7"

text \<open>
  \<open>date.toISOString().slice(0,10)\<close>: the key \<open>YYYY-MM-DD\<close> of the day, for years 0 to
  9999, by the usual conversion of a day count to a civil date.  The key is read in UTC;
  the model takes it to name the same calendar day as the local date, as it does for local
  midnight in a time zone at or west of Greenwich.
\<close>

definition digit_char :: "nat \<Rightarrow> char" where
  "digit_char n = char_of (48 + n mod 10)"

definition pad2 :: "nat \<Rightarrow> string" where
  "pad2 n = [digit_char (n div 10), digit_char n]"

definition pad4 :: "nat \<Rightarrow> string" where
  "pad4 n = [digit_char (n div 1000), digit_char (n div 100), digit_char (n div 10), digit_char n]"

definition civil :: "date \<Rightarrow> int \<times> int \<times> int" where
  "civil d =
     (let z = d + 719468;
          era = z div 146097;
          doe = z mod 146097;
          yoe = (doe - doe div 1460 + doe div 36524 - doe div 146096) div 365;
          doy = doe - (365 * yoe + yoe div 4 - yoe div 100);
          mp = (5 * doy + 2) div 153;
          dd = doy - (153 * mp + 2) div 5 + 1;
          mm = (if mp < 10 then mp + 3 else mp - 9);
          yy = yoe + era * 400 + (if mm \<le> 2 then 1 else 0)
      in (yy, mm, dd))"

definition isoDate :: "date \<Rightarrow> string" where
  "isoDate d =
     (case civil d of
        (yy, mm, dd) \<Rightarrow> pad4 (nat yy) @ ''-'' @ pad2 (nat mm) @ ''-'' @ pad2 (nat dd))"

section \<open>Calendar Grid Builder\<close>

text \<open>
  \<open>buildWeeks\<close> (part_000, lines 42 to 56).  The inner \<open>for\<close> loop pushes the cursor and
  advances it seven times; the outer \<open>while\<close> loop runs as long as the cursor is on or
  before the end date.
\<close>

function fillWeek :: "nat \<Rightarrow> date \<Rightarrow> date list \<Rightarrow> date list \<times> date" where
  "fillWeek i cursor week =
     (if i < 7 then fillWeek (i + 1) (cursor + 1) (week @ [cursor]) else (week, cursor))"
  by pat_completeness auto
termination
  by (relation "measure (\<lambda>(i, cursor, week). 7 - i)") auto

declare fillWeek.simps [simp del]

function weeksLoop :: "date \<Rightarrow> date \<Rightarrow> date list list \<Rightarrow> date list list" where
  "weeksLoop cursor end weeks =
     (if cursor \<le> end
      then weeksLoop (snd (fillWeek 0 cursor [])) end (weeks @ [fst (fillWeek 0 cursor [])])
      else weeks)"
  by pat_completeness auto
termination
proof (relation "measure (\<lambda>(cursor, end, weeks). nat (end - cursor + 1))")
  show "wf (measure (\<lambda>(cursor, end, weeks). nat (end - cursor + 1)))"
    by simp
next
  fix cursor :: date and "end" :: date and weeks :: "date list list"
  assume le: "cursor \<le> end"
  have step: "\<And>i c w. snd (fillWeek i c w) = c + int (7 - i)"
  proof -
    fix i c w
    show "snd (fillWeek i c w) = c + int (7 - i)"
      by (induction i c w rule: fillWeek.induct) (subst fillWeek.simps, simp add: Suc_diff_le)
  qed
  show "((snd (fillWeek 0 cursor []), end, weeks @ [fst (fillWeek 0 cursor [])]),
         (cursor, end, weeks))
        \<in> measure (\<lambda>(cursor, end, weeks). nat (end - cursor + 1))"
    using le by (simp add: step)
qed

declare weeksLoop.simps [simp del]

definition buildWeeks :: "date \<Rightarrow> date \<Rightarrow> date list list" where
  "buildWeeks start end =
     (let first = start - ((getDay start + 6) mod 7)
      in weeksLoop first end [])"

text \<open>
  \<open>getWeeks\<close> of part_004 (lines 46 to 64), an earlier builder: one loop over all days
  from the Monday to the end date, cutting a week after every seventh day and pushing
  what is left at the end.  (Its call of \<open>getAllDates\<close> has no effect on the result.)
\<close>

function getWeeksLoop ::
  "date \<Rightarrow> date \<Rightarrow> date list \<Rightarrow> date list list \<Rightarrow> date list \<times> date list list" where
  "getWeeksLoop d end week weeks =
     (if d \<le> end
      then (let week = week @ [d]
            in if length week = 7
               then getWeeksLoop (d + 1) end [] (weeks @ [week])
               else getWeeksLoop (d + 1) end week weeks)
      else (week, weeks))"
  by pat_completeness auto
termination
  by (relation "measure (\<lambda>(d, end, week, weeks). nat (end - d + 1))") auto

declare getWeeksLoop.simps [simp del]

definition getWeeks :: "date \<Rightarrow> date \<Rightarrow> date list list" where
  "getWeeks start end =
     (let offset = (getDay start + 6) mod 7;
          first = start - offset
      in case getWeeksLoop first end [] [] of
           (week, weeks) \<Rightarrow> if week \<noteq> [] then weeks @ [week] else weeks)"

section \<open>Weather Join Index\<close>

text \<open>
  A weather record of \<open>alb_metar.json\<close>, with the fields the engine reads.  \<open>temp_C\<close> is
  nullable.
\<close>

record metar =
  local_time :: string
  flight_category :: string
  temp_C :: "rat option"

text \<open>
  \<open>new Date(r.local_time).getHours()\<close> for a local date-time string
  \<open>YYYY-MM-DDTHH:MM\<close> without zone designator, which is read as local time: the hour
  field.  A string without such a field is an invalid date, whose hour is NaN (\<open>None\<close>).
\<close>

definition getHours :: "string \<Rightarrow> nat option" where
  "getHours s =
     (case toNumber (take 2 (drop 11 s)) of
        Some h \<Rightarrow> if 13 \<le> length s \<and> h < 24 then Some h else None
      | None \<Rightarrow> None)"

text \<open>
  \<open>metarLookup\<close> (part_005, lines 99 to 108): an object keyed by date string whose
  values are objects keyed by hour.  The inner key is a number, NaN included.
\<close>

type_synonym hourMap = "nat option \<rightharpoonup> metar"
type_synonym index = "string \<rightharpoonup> hourMap"

definition indexStep :: "index \<Rightarrow> metar \<Rightarrow> index" where
  "indexStep m r =
     (let key = take 10 (local_time r);
          hr = getHours (local_time r);
          inner = (case m key of None \<Rightarrow> Map.empty | Some hm \<Rightarrow> hm)
      in m(key \<mapsto> inner(hr \<mapsto> r)))"

definition metarLookup :: "metar list \<Rightarrow> index" where
  "metarLookup metarData = foldl indexStep Map.empty metarData"

text \<open>The read \<open>metarLookup[dKey]?.[hr]\<close>.\<close>

definition lookupHour :: "index \<Rightarrow> string \<Rightarrow> nat \<Rightarrow> metar option" where
  "lookupHour idx dKey hr = (case idx dKey of None \<Rightarrow> None | Some hm \<Rightarrow> hm (Some hr))"

text \<open>The entry of the index under a date key and an inner key, if there is one.\<close>

definition entry :: "index \<Rightarrow> string \<Rightarrow> nat option \<Rightarrow> metar option" where
  "entry idx dKey hr = (case idx dKey of None \<Rightarrow> None | Some hm \<Rightarrow> hm hr)"

section \<open>Category Membership Test\<close>

text \<open>
  \<open>blockHasCategory\<close> (part_005, lines 111 to 130).  The loop
  \<open>for (t = sMin; t < eMin; t += 60)\<close> is \<open>hasCategoryLoop\<close>.
\<close>

function hasCategoryLoop :: "index \<Rightarrow> date \<Rightarrow> string \<Rightarrow> nat \<Rightarrow> nat \<Rightarrow> bool" where
  "hasCategoryLoop idx date cat t eMin =
     (if t < eMin
      then (let hr = t div 60;
                dKey = isoDate date;
                dKey = (if 24 \<le> hr then isoDate (date + 1) else dKey);
                hr = (if 24 \<le> hr then hr mod 24 else hr);
                rec = lookupHour idx dKey hr
            in if (case rec of Some r \<Rightarrow> flight_category r = cat | None \<Rightarrow> False) then True
               else hasCategoryLoop idx date cat (t + 60) eMin)
      else False)"
  by pat_completeness auto
termination
  by (relation "measure (\<lambda>(idx, date, cat, t, eMin). eMin - t)") auto

declare hasCategoryLoop.simps [simp del]

text \<open>
  With a clock code that does not parse, \<open>sMin\<close> or \<open>eMin\<close> is NaN, both \<open>eMin <= sMin\<close>
  and \<open>t < eMin\<close> are false, and the function returns false without entering the loop.
\<close>

definition blockHasCategory :: "index \<Rightarrow> date \<Rightarrow> string \<Rightarrow> string \<Rightarrow> string \<Rightarrow> bool" where
  "blockHasCategory idx date start end cat =
     (case (toNumber (take 2 start), toNumber (drop 2 start),
            toNumber (take 2 end), toNumber (drop 2 end)) of
        (Some sh, Some sm, Some eh, Some em) \<Rightarrow>
          (let sMin = sh * 60 + sm;
               eMin = eh * 60 + em;
               eMin = (if eMin \<le> sMin then eMin + 1440 else eMin)
           in hasCategoryLoop idx date cat sMin eMin)
      | _ \<Rightarrow> False)"

text \<open>
  \<open>blockMatchesFilters\<close> of \<open>App (19).js\<close> (lines 116 to 141): the same walk, testing
  \<open>catFilters[rec.flight_category]\<close> instead of one target category.  \<open>catFilters\<close> is the
  list of the object's entries; a category that is no key reads as \<open>undefined\<close>, which is
  falsy.
\<close>

type_synonym filters = "(string \<times> bool) list"

function matchesLoop :: "index \<Rightarrow> filters \<Rightarrow> date \<Rightarrow> nat \<Rightarrow> nat \<Rightarrow> bool" where
  "matchesLoop idx catFilters date tMin eMin =
     (if tMin < eMin
      then (let hour = tMin div 60;
                dateKey = isoDate date;
                dateKey = (if 24 \<le> hour then isoDate (date + 1) else dateKey);
                hour = (if 24 \<le> hour then hour mod 24 else hour);
                rec = lookupHour idx dateKey hour
            in if (case rec of
                     Some r \<Rightarrow> map_of catFilters (flight_category r) = Some True
                   | None \<Rightarrow> False)
               then True
               else matchesLoop idx catFilters date (tMin + 60) eMin)
      else False)"
  by pat_completeness auto
termination
  by (relation "measure (\<lambda>(idx, catFilters, date, tMin, eMin). eMin - tMin)") auto

declare matchesLoop.simps [simp del]

definition blockMatchesFilters :: "index \<Rightarrow> filters \<Rightarrow> date \<Rightarrow> string \<Rightarrow> string \<Rightarrow> bool" where
  "blockMatchesFilters idx catFilters date start end =
     (case (toNumber (take 2 start), toNumber (drop 2 start),
            toNumber (take 2 end), toNumber (drop 2 end)) of
        (Some sh, Some sm, Some eh, Some em) \<Rightarrow>
          (let sMin = sh * 60 + sm;
               eMin = eh * 60 + em;
               eMin = (if eMin \<le> sMin then eMin + 1440 else eMin)
           in matchesLoop idx catFilters date sMin eMin)
      | _ \<Rightarrow> False)"

text \<open>
  The reading of the test in the specification: some hour touched by the interval
  \<open>[sMin, eMin)\<close>, counted from midnight of the block's date, has an indexed observation
  of the category.  Hour \<open>h\<close> is touched when its minutes \<open>[60h, 60h + 60)\<close> meet the
  interval; hours from 24 on belong to the following date.
\<close>

definition spec_blockHasCategory ::
  "index \<Rightarrow> date \<Rightarrow> string \<Rightarrow> string \<Rightarrow> string \<Rightarrow> bool" where
  "spec_blockHasCategory idx date start end cat =
     (case (toNumber (take 2 start), toNumber (drop 2 start),
            toNumber (take 2 end), toNumber (drop 2 end)) of
        (Some sh, Some sm, Some eh, Some em) \<Rightarrow>
          (let sMin = sh * 60 + sm;
               eMin = eh * 60 + em;
               eMin = (if eMin \<le> sMin then eMin + 1440 else eMin)
           in list_ex
                (\<lambda>h. case lookupHour idx (if h < 24 then isoDate date else isoDate (date + 1))
                            (h mod 24) of
                       Some r \<Rightarrow> flight_category r = cat
                     | None \<Rightarrow> False)
                [sMin div 60 ..< (eMin + 59) div 60])
      | _ \<Rightarrow> False)"

text \<open>
  The records found in the buckets that the loop of the test visits: minute \<open>t\<close>, then
  \<open>t + 60\<close>, and so on, while the minute is below \<open>eMin\<close>.
\<close>

definition visitedRecords :: "index \<Rightarrow> date \<Rightarrow> nat \<Rightarrow> nat \<Rightarrow> metar set" where
  "visitedRecords idx date t eMin =
     {rec. \<exists>k. t + 60 * k < eMin \<and>
        lookupHour idx
          (if 24 \<le> (t + 60 * k) div 60 then isoDate (date + 1) else isoDate date)
          (if 24 \<le> (t + 60 * k) div 60 then ((t + 60 * k) div 60) mod 24
           else (t + 60 * k) div 60) = Some rec}"

section \<open>Overlay Aggregator\<close>

text \<open>
  The activity dataset: \<open>data[tail].blocksByDate[key]\<close>.  Reading \<open>blocksByDate\<close> of a
  tail that is no key of \<open>data\<close> throws a \<open>TypeError\<close>.
\<close>

datatype error = TypeError

type_synonym block = "string \<times> string"
type_synonym activity = "string \<rightharpoonup> (string \<rightharpoonup> block list)"

text \<open>
  \<open>renderBlocks\<close> (part_005, lines 153 to 179): one entry per block of the day, \<open>null\<close>
  (here \<open>None\<close>) for a block that no enabled category matches.
\<close>

definition renderBlocks ::
  "activity \<Rightarrow> index \<Rightarrow> filters \<Rightarrow> rat \<Rightarrow> string \<Rightarrow> date \<Rightarrow> error + segment option list" where
  "renderBlocks data idx catFilters hourPx tail date =
     (case data tail of
        None \<Rightarrow> Inl TypeError
      | Some blocksByDate \<Rightarrow>
          (let key = isoDate date;
               blocks = (case blocksByDate key of None \<Rightarrow> [] | Some bs \<Rightarrow> bs)
           in Inr (map (\<lambda>(start, end).
                     if \<not> list_ex (\<lambda>(c, on). on \<and> blockHasCategory idx date start end c) catFilters
                     then None
                     else Some (blockSegment hourPx start end)) blocks)))"

text \<open>\<open>renderBlocks\<close> of \<open>App (19).js\<close> (lines 144 to 169), filtering by \<open>blockMatchesFilters\<close>.\<close>

definition renderBlocks_19 ::
  "activity \<Rightarrow> index \<Rightarrow> filters \<Rightarrow> rat \<Rightarrow> string \<Rightarrow> date \<Rightarrow> error + segment option list" where
  "renderBlocks_19 data idx catFilters hourPx tail date =
     (case data tail of
        None \<Rightarrow> Inl TypeError
      | Some blocksByDate \<Rightarrow>
          (let key = isoDate date;
               blocks = (case blocksByDate key of None \<Rightarrow> [] | Some bs \<Rightarrow> bs)
           in Inr (map (\<lambda>(start, end).
                     if \<not> blockMatchesFilters idx catFilters date start end
                     then None
                     else Some (blockSegment hourPx start end)) blocks)))"

text \<open>
  The aircraft row cell, \<open>visible[t] && renderBlocks(t, d)\<close> (part_005, line 303): a hidden
  aircraft renders nothing.
\<close>

definition aircraftCell ::
  "(string \<Rightarrow> bool) \<Rightarrow> activity \<Rightarrow> index \<Rightarrow> filters \<Rightarrow> rat \<Rightarrow> string \<Rightarrow> date
     \<Rightarrow> error + segment option list" where
  "aircraftCell visible data idx catFilters hourPx t d =
     (if visible t then renderBlocks data idx catFilters hourPx t d else Inr [])"

text \<open>
  One segment of the temperature row (part_005, lines 345 to 357): the body mapped over
  the records of the day.
\<close>

record hourSegment =
  seg_left :: number
  seg_width :: number
  backgroundColor :: string

definition tempSegment :: "rat \<Rightarrow> metar \<Rightarrow> hourSegment" where
  "tempSegment hourPx rec =
     (let h = map_option of_nat (getHours (local_time rec))
      in \<lparr>seg_left = num_mul h (Some hourPx), seg_width = Some hourPx,
          backgroundColor = tempToColor (temp_C rec)\<rparr>)"

section \<open>Properties of the Time Interval Model\<close>

lemmas parse_simps = parsedHour_def toNum_def toNumber_def is_digit_def digit_val_def
  num_add_def num_div60_def

lemma parsedHour_clock:
  assumes "clock_code s"
  shows "\<exists>q. parsedHour s = Some q \<and> 0 \<le> q \<and> q < 24"
proof -
  from assms obtain h m
    where hm: "toNumber (take 2 s) = Some h" "toNumber (drop 2 s) = Some m" "h < 24" "m < 60"
    by (auto simp: clock_code_def split: option.splits)
  have "parsedHour s = Some (of_nat h + of_nat m / 60)"
    by (simp add: parsedHour_def toNum_def hm num_add_def num_div60_def)
  moreover have "(of_nat h + of_nat m / 60 :: rat) < 24"
  proof -
    have "h \<le> 23" using hm(3) by simp
    then have "(of_nat h :: rat) \<le> of_nat 23" by (simp only: of_nat_le_iff)
    moreover have "(of_nat m :: rat) / 60 < 1" using hm(4) by simp
    ultimately show ?thesis by simp
  qed
  moreover have "(0::rat) \<le> of_nat h + of_nat m / 60" by simp
  ultimately show ?thesis by blast
qed

lemma blockInterval_parsed:
  "blockInterval start end =
     (parsedHour start,
      if num_le (parsedHour end) (parsedHour start) then num_add (parsedHour end) (Some 24)
      else parsedHour end)"
  by (simp add: blockInterval_def parsedHour_def Let_def)

lemma blockInterval_000_parsed:
  "blockInterval_000 start end =
     (parsedHour start,
      if num_lt (parsedHour end) (parsedHour start) then num_add (parsedHour end) (Some 24)
      else parsedHour end)"
  by (simp add: blockInterval_000_def parsedHour_def Let_def)

text \<open>
  C3, as the code has it.  For well-formed clock codes with parsed hours \<open>s\<close> and \<open>e\<close>:
  the versions with category filtering (part_005) add 24 to the end whenever \<open>e \<le> s\<close>;
  the earlier versions (part_000) add 24 only when \<open>e < s\<close>, so that equal endpoints keep
  the parsed end and give width 0.  In both, the width is non-negative for a non-negative
  scale.
\<close>

theorem cross_midnight_rule:
  assumes "clock_code start" and "clock_code end"
    and "parsedHour start = Some s" and "parsedHour end = Some e" and "0 \<le> hourPx"
  shows "(e \<le> s \<longrightarrow> snd (blockInterval start end) = Some (e + 24))
       \<and> (e < s \<longrightarrow> snd (blockInterval_000 start end) = Some (e + 24))
       \<and> (e = s \<longrightarrow> snd (blockInterval_000 start end) = Some e
                 \<and> width (blockSegment_000 hourPx start end) = Some 0)
       \<and> (\<exists>w. width (blockSegment hourPx start end) = Some w \<and> 0 \<le> w)
       \<and> (\<exists>w. width (blockSegment_000 hourPx start end) = Some w \<and> 0 \<le> w)"
proof -
  from parsedHour_clock [OF assms(1)] assms(3) have s: "0 \<le> s" "s < 24" by auto
  from parsedHour_clock [OF assms(2)] assms(4) have e: "0 \<le> e" "e < 24" by auto
  have a: "e \<le> s \<longrightarrow> snd (blockInterval start end) = Some (e + 24)"
    by (simp add: blockInterval_parsed assms(3,4) num_le_def num_add_def)
  have b: "e < s \<longrightarrow> snd (blockInterval_000 start end) = Some (e + 24)"
    by (simp add: blockInterval_000_parsed assms(3,4) num_lt_def num_add_def)
  have c: "e = s \<longrightarrow> snd (blockInterval_000 start end) = Some e
                 \<and> width (blockSegment_000 hourPx start end) = Some 0"
    by (simp add: blockSegment_000_def blockInterval_000_parsed assms(3,4) num_lt_def
        num_sub_def num_mul_def)
  have d: "\<exists>w. width (blockSegment hourPx start end) = Some w \<and> 0 \<le> w"
  proof (cases "e \<le> s")
    case True
    then have "width (blockSegment hourPx start end) = Some ((e + 24 - s) * hourPx)"
      by (simp add: blockSegment_def blockInterval_parsed assms(3,4) num_le_def num_add_def
          num_sub_def num_mul_def)
    moreover have "0 \<le> (e + 24 - s) * hourPx"
      using s e assms(5) by (intro mult_nonneg_nonneg) auto
    ultimately show ?thesis by blast
  next
    case False
    then have "width (blockSegment hourPx start end) = Some ((e - s) * hourPx)"
      by (simp add: blockSegment_def blockInterval_parsed assms(3,4) num_le_def
          num_sub_def num_mul_def)
    moreover have "0 \<le> (e - s) * hourPx"
      using False assms(5) by (intro mult_nonneg_nonneg) auto
    ultimately show ?thesis by blast
  qed
  have f: "\<exists>w. width (blockSegment_000 hourPx start end) = Some w \<and> 0 \<le> w"
  proof (cases "e < s")
    case True
    then have "width (blockSegment_000 hourPx start end) = Some ((e + 24 - s) * hourPx)"
      by (simp add: blockSegment_000_def blockInterval_000_parsed assms(3,4) num_lt_def
          num_add_def num_sub_def num_mul_def)
    moreover have "0 \<le> (e + 24 - s) * hourPx"
      using s e assms(5) by (intro mult_nonneg_nonneg) auto
    ultimately show ?thesis by blast
  next
    case False
    then have "width (blockSegment_000 hourPx start end) = Some ((e - s) * hourPx)"
      by (simp add: blockSegment_000_def blockInterval_000_parsed assms(3,4) num_lt_def
          num_sub_def num_mul_def)
    moreover have "0 \<le> (e - s) * hourPx"
      using False assms(5) by (intro mult_nonneg_nonneg) auto
    ultimately show ?thesis by blast
  qed
  from a b c d f show ?thesis by blast
qed

text \<open>The spec's example: \<open>("2330", "0130")\<close> at 4 px per hour, end 25.5.\<close>

theorem cross_midnight_rule_witness:
  "clock_code ''2330'' \<and> clock_code ''0130''
   \<and> parsedHour ''2330'' = Some (47/2) \<and> parsedHour ''0130'' = Some (3/2)
   \<and> snd (blockInterval ''2330'' ''0130'') = Some (51/2)
   \<and> snd (blockInterval_000 ''2330'' ''0130'') = Some (51/2)
   \<and> (\<exists>w. width (blockSegment 4 ''2330'' ''0130'') = Some w \<and> 0 \<le> w)
   \<and> (\<exists>w. width (blockSegment_000 4 ''2330'' ''0130'') = Some w \<and> 0 \<le> w)"
proof -
  have a: "clock_code ''2330''" and b: "clock_code ''0130''"
    by (simp_all add: clock_code_def toNumber_def is_digit_def digit_val_def)
  have c: "parsedHour ''2330'' = Some (47/2)" and d: "parsedHour ''0130'' = Some (3/2)"
    by (simp_all add: parse_simps)
  have e: "(0::rat) \<le> 4" by simp
  show ?thesis using cross_midnight_rule [OF a b c d e] a b c d by simp
qed

text \<open>
  In part_000 a block whose end equals its start has parsed end \<open>\<le>\<close> parsed start, and
  its computed end is the parsed end, not the parsed end plus 24.
\<close>

theorem cross_midnight_strict_variant_counterexample:
  "clock_code ''0800'' \<and> num_le (parsedHour ''0800'') (parsedHour ''0800'')
   \<and> snd (blockInterval_000 ''0800'' ''0800'') \<noteq> num_add (parsedHour ''0800'') (Some 24)"
  by (simp add: clock_code_def blockInterval_000_parsed parse_simps num_le_def num_lt_def)

text \<open>
  C8.  A block within a single day (parsed end strictly after parsed start) keeps its
  parsed endpoints, and its width is parsed end minus parsed start, times the scale; this
  holds with either cross-midnight test.
\<close>

theorem single_day_width_roundtrip:
  assumes "parsedHour start = Some s" and "parsedHour end = Some e" and "s < e"
  shows "blockInterval start end = (Some s, Some e)
       \<and> width (blockSegment hourPx start end) = Some ((e - s) * hourPx)
       \<and> blockInterval_000 start end = (Some s, Some e)
       \<and> width (blockSegment_000 hourPx start end) = Some ((e - s) * hourPx)"
  using assms
  by (simp add: blockInterval_parsed blockInterval_000_parsed blockSegment_def
      blockSegment_000_def num_le_def num_lt_def num_sub_def num_mul_def)

theorem single_day_width_roundtrip_witness:
  "parsedHour ''0830'' = Some (17/2) \<and> parsedHour ''1015'' = Some (41/4)
   \<and> width (blockSegment 4 ''0830'' ''1015'') = Some 7
   \<and> width (blockSegment_000 4 ''0830'' ''1015'') = Some 7"
proof -
  have a: "parsedHour ''0830'' = Some (17/2)" and b: "parsedHour ''1015'' = Some (41/4)"
    by (simp_all add: parse_simps)
  have c: "(17/2 :: rat) < 41/4" by simp
  show ?thesis using single_day_width_roundtrip [OF a b c, of 4] a b by simp
qed

section \<open>Properties of the temperature bands\<close>

text \<open>
  C9.  For a null (or undefined) temperature \<open>tempToColor\<close> returns \<open>transparent\<close>, which
  is none of the seven band colours, whereas every number falls into one of the seven
  bands; the temperature segment of a record with a null temperature is drawn in
  \<open>transparent\<close>.
\<close>

theorem null_temperature_transparent:
  "tempToColor None = ''transparent''
   \<and> ''transparent'' \<notin> set tempBands
   \<and> (\<forall>t. tempToColor (Some t) \<in> set tempBands)
   \<and> backgroundColor (tempSegment hourPx (rec\<lparr>temp_C := None\<rparr>)) = ''transparent''"
  by (simp add: tempToColor_def tempBands_def tempSegment_def Let_def)

section \<open>Properties of the Calendar Grid Builder\<close>

lemma fillWeek_eq:
  "fillWeek i c w = (w @ [c .. c + int (7 - i) - 1], c + int (7 - i))"
proof (induction i c w rule: fillWeek.induct)
  case (1 i cursor week)
  show ?case
  proof (cases "i < 7")
    case True
    then have "[cursor .. cursor + int (7 - i) - 1]
             = cursor # [cursor + 1 .. cursor + 1 + int (7 - (i + 1)) - 1]"
      by (subst upto_rec1) (auto simp: of_nat_diff)
    with True 1 show ?thesis by (subst fillWeek.simps) simp
  next
    case False
    then show ?thesis by (subst fillWeek.simps) simp
  qed
qed

lemma fillWeek_0: "fillWeek 0 c [] = ([c .. c + 6], c + 7)"
proof -
  have "fillWeek 0 c [] = ([] @ [c .. c + int (7 - 0) - 1], c + int (7 - 0))"
    by (rule fillWeek_eq)
  then show ?thesis by (simp add: add.commute)
qed

definition weekFrom :: "date \<Rightarrow> date list" where
  "weekFrom c = [c .. c + 6]"

lemma weeksLoop_eq:
  "weeksLoop c e ws = ws @ map (\<lambda>j. [c + 7 * int j .. c + 7 * int j + 6]) [0..<nat ((e - c) div 7 + 1)]"
proof (induction c e ws rule: weeksLoop.induct)
  case (1 cursor e weeks)
  show ?case
  proof (cases "cursor \<le> e")
    case True
    then have n: "nat ((e - cursor) div 7 + 1) = Suc (nat ((e - (cursor + 7)) div 7 + 1))"
      by simp
    have "weeksLoop cursor e weeks = weeksLoop (cursor + 7) e (weeks @ [[cursor .. cursor + 6]])"
      using True by (subst weeksLoop.simps) (simp add: fillWeek_0)
    also have "\<dots> = (weeks @ [[cursor .. cursor + 6]]) @
        map (\<lambda>j. [cursor + 7 + 7 * int j .. cursor + 7 + 7 * int j + 6])
          [0..<nat ((e - (cursor + 7)) div 7 + 1)]"
      using 1 True by (simp add: fillWeek_0)
    also have "\<dots> = weeks @ map (\<lambda>j. [cursor + 7 * int j .. cursor + 7 * int j + 6])
          [0..<nat ((e - cursor) div 7 + 1)]"
      unfolding n by (simp add: upt_conv_Cons map_Suc_upt [symmetric] del: upt_Suc) (simp add: algebra_simps)
    finally show ?thesis .
  next
    case False
    then have "nat ((e - cursor) div 7 + 1) = 0" by simp
    with False show ?thesis by (subst weeksLoop.simps) simp
  qed
qed


lemma monday_getDay: "getDay (start - (getDay start + 6) mod 7) = 1"
  unfolding getDay_def by presburger

lemma monday_le: "start - (getDay start + 6) mod 7 \<le> start"
  by simp

lemma monday_gt: "start < start - (getDay start + 6) mod 7 + 7"
  by simp

lemma buildWeeks_eq:
  "buildWeeks start end =
     map (\<lambda>j. [start - (getDay start + 6) mod 7 + 7 * int j ..
                start - (getDay start + 6) mod 7 + 7 * int j + 6])
       [0..<nat ((end - (start - (getDay start + 6) mod 7)) div 7 + 1)]"
  by (simp add: buildWeeks_def Let_def weeksLoop_eq)

lemma concat_weeks:
  "concat (map (\<lambda>j. [c + 7 * int j .. c + 7 * int j + 6]) [0..<n]) = [c .. c + 7 * int n - 1]"
proof (induction n)
  case 0
  show ?case by simp
next
  case (Suc n)
  have "[c .. c + 7 * int (Suc n) - 1] = [c .. c + 7 * int n - 1] @ [c + 7 * int n .. c + 7 * int n + 6]"
    using upto_split1 [of c "c + 7 * int n" "c + 7 * int (Suc n) - 1"]
    by (simp add: algebra_simps)
  with Suc show ?case by simp
qed

lemma getWeeksLoop_inv:
  "length week < 7 \<Longrightarrow> \<forall>w\<in>set weeks. length w = 7 \<Longrightarrow>
   getWeeksLoop d e week weeks = (wk, wks) \<Longrightarrow>
   length wk < 7 \<and> (\<forall>w\<in>set wks. length w = 7) \<and> concat wks @ wk = concat weeks @ week @ [d..e]"
proof (induction d e week weeks rule: getWeeksLoop.induct)
  case (1 d e week weeks)
  show ?case
  proof (cases "d \<le> e")
    case False
    with 1(5) have "wk = week" "wks = weeks"
      by (subst (asm) getWeeksLoop.simps, simp)+
    with False 1(3,4) show ?thesis by simp
  next
    case le: True
    then have up: "[d..e] = d # [d + 1..e]" by (rule upto_rec1)
    show ?thesis
    proof (cases "length (week @ [d]) = 7")
      case True
      with le 1(5) have "getWeeksLoop (d + 1) e [] (weeks @ [week @ [d]]) = (wk, wks)"
        by (subst (asm) getWeeksLoop.simps) (simp add: Let_def)
      from 1(1) [OF le refl True _ _ this] True 1(4)
      show ?thesis by (simp add: up)
    next
      case False
      with le 1(5) have "getWeeksLoop (d + 1) e (week @ [d]) weeks = (wk, wks)"
        by (subst (asm) getWeeksLoop.simps) (simp add: Let_def)
      from 1(2) [OF le refl False _ 1(4) this] False 1(3)
      show ?thesis by (simp add: up)
    qed
  qed
qed


lemma hd_week: "hd [c .. c + 6] = (c::int)"
  by (simp add: upto_rec1)

lemma last_week: "last [c .. c + 6] = (c::int) + 6"
  by (simp add: upto_rec2)

lemma getWeeks_parts:
  assumes "getWeeksLoop (start - (getDay start + 6) mod 7) e [] [] = (wk, wks)"
  shows "getWeeks start e = (if wk \<noteq> [] then wks @ [wk] else wks)"
    and "length wk < 7" and "\<forall>w\<in>set wks. length w = 7"
    and "concat wks @ wk = [start - (getDay start + 6) mod 7 .. e]"
proof -
  show "getWeeks start e = (if wk \<noteq> [] then wks @ [wk] else wks)"
    using assms by (simp add: getWeeks_def Let_def)
  from getWeeksLoop_inv [OF _ _ assms]
  show "length wk < 7" and "\<forall>w\<in>set wks. length w = 7"
    and "concat wks @ wk = [start - (getDay start + 6) mod 7 .. e]"
    by simp_all
qed

text \<open>
  C5, as the code has it.  For a range with start on or before end, \<open>buildWeeks\<close> yields
  weeks of exactly 7 consecutive dates; the first begins on the Monday on or before the
  start date, and the last is complete, its Monday on or before the end date and its
  Sunday on or after it.  \<open>getWeeks\<close> of part_004 begins on the same Monday and its weeks
  cut the unbroken run of dates from that Monday to the end date: seven dates in every
  week but the last, which stops at the end date and holds between 1 and 7 dates.
\<close>

theorem calendar_weeks:
  assumes "start \<le> end" and first: "first = start - (getDay start + 6) mod 7"
  shows "getDay first = 1 \<and> first \<le> start \<and> start < first + 7
       \<and> buildWeeks start end \<noteq> [] \<and> hd (hd (buildWeeks start end)) = first
       \<and> (\<forall>w\<in>set (buildWeeks start end). length w = 7 \<and> w = [hd w .. hd w + 6])
       \<and> hd (last (buildWeeks start end)) \<le> end \<and> end \<le> last (last (buildWeeks start end))
       \<and> getWeeks start end \<noteq> [] \<and> hd (hd (getWeeks start end)) = first
       \<and> concat (getWeeks start end) = [first .. end]
       \<and> (\<forall>w\<in>set (butlast (getWeeks start end)). length w = 7)
       \<and> 1 \<le> length (last (getWeeks start end)) \<and> length (last (getWeeks start end)) \<le> 7"
proof -
  define n where "n = nat ((end - first) div 7 + 1)"
  define f where "f = (\<lambda>j. [first + 7 * int j .. first + 7 * int j + 6])"
  have mon: "getDay first = 1" "first \<le> start" "start < first + 7"
    unfolding first by (rule monday_getDay, rule monday_le, rule monday_gt)
  have fe: "first \<le> end" using mon(2) assms(1) by simp
  have bw: "buildWeeks start end = map f [0..<n]"
    unfolding n_def f_def first by (rule buildWeeks_eq)
  have n: "0 < n" "int n = (end - first) div 7 + 1"
    using fe unfolding n_def by (simp_all add: pos_imp_zdiv_nonneg_iff)
  have b1: "buildWeeks start end \<noteq> []" using n(1) by (simp add: bw)
  have b2: "hd (hd (buildWeeks start end)) = first"
    using n(1) by (simp add: bw hd_map f_def hd_week)
  have b3: "\<forall>w\<in>set (buildWeeks start end). length w = 7 \<and> w = [hd w .. hd w + 6]"
    by (auto simp: bw f_def hd_week)
  have lastw: "last (buildWeeks start end) = f (n - 1)"
    using n(1) by (simp add: bw last_map)
  have "int (n - 1) = (end - first) div 7" using n by simp
  then have b4: "hd (last (buildWeeks start end)) \<le> end \<and> end \<le> last (last (buildWeeks start end))"
    unfolding lastw f_def hd_week last_week by presburger
  obtain wk wks where loop: "getWeeksLoop (start - (getDay start + 6) mod 7) end [] [] = (wk, wks)"
    by (cases "getWeeksLoop (start - (getDay start + 6) mod 7) end [] []")
  note gp = getWeeks_parts [OF loop, folded first]
  have ne: "[first .. end] \<noteq> []" using fe by (simp add: upto_rec1)
  show ?thesis
  proof (cases "wk = []")
    case True
    with gp have gw: "getWeeks start end = wks" and cc: "concat wks = [first .. end]" by simp_all
    from cc ne have wne: "wks \<noteq> []" by auto
    then have "last wks \<in> set wks" and "hd wks \<in> set wks" by simp_all
    with gp(3) have l7: "length (last wks) = 7" "length (hd wks) = 7" by auto
    then have "hd wks \<noteq> []" by auto
    then have "hd (hd wks) = hd (concat wks)" using wne by (cases wks) auto
    then have g2: "hd (hd (getWeeks start end)) = first" using fe by (simp add: gw cc upto_rec1)
    have g4: "\<forall>w\<in>set (butlast (getWeeks start end)). length w = 7"
      using gp(3) by (auto simp: gw dest: in_set_butlastD)
    from mon b1 b2 b3 b4 wne g2 cc g4 l7 show ?thesis by (simp add: gw)
  next
    case False
    with gp have gw: "getWeeks start end = wks @ [wk]" and cc: "concat wks @ wk = [first .. end]"
      by simp_all
    have "hd (hd (wks @ [wk])) = hd (concat wks @ wk)"
    proof (cases wks)
      case Nil
      then show ?thesis by simp
    next
      case (Cons w ws)
      with gp(3) have "length w = 7" by simp
      then have "w \<noteq> []" by auto
      with Cons show ?thesis by simp
    qed
    then have g2: "hd (hd (getWeeks start end)) = first" using fe by (simp add: gw cc upto_rec1)
    have g3: "concat (getWeeks start end) = [first .. end]" by (simp add: gw cc)
    have g4: "\<forall>w\<in>set (butlast (getWeeks start end)). length w = 7"
      using gp(3) by (simp add: gw)
    have g5: "1 \<le> length (last (getWeeks start end)) \<and> length (last (getWeeks start end)) \<le> 7"
      using False gp(2) by (cases wk) (simp_all add: gw)
    from mon b1 b2 b3 b4 g2 g3 g4 g5 show ?thesis by (simp add: gw)
  qed
qed

text \<open>A concrete range: Wednesday 2025-01-15 (day 20103) to Wednesday 2025-01-22 (day 20110).\<close>

lemma bw_20103_20110:
  "buildWeeks 20103 20110 =
     [[20101, 20102, 20103, 20104, 20105, 20106, 20107],
      [20108, 20109, 20110, 20111, 20112, 20113, 20114]]"
  by (simp add: buildWeeks_def getDay_def weeksLoop.simps fillWeek.simps)

lemma gw_20103_20110:
  "getWeeks 20103 20110 =
     [[20101, 20102, 20103, 20104, 20105, 20106, 20107], [20108, 20109, 20110]]"
  by (simp add: getWeeks_def getDay_def getWeeksLoop.simps Let_def)

theorem calendar_weeks_witness:
  "(20103::int) \<le> 20110 \<and> getDay 20101 = 1
   \<and> hd (hd (buildWeeks 20103 20110)) = 20101
   \<and> hd (last (buildWeeks 20103 20110)) \<le> 20110
   \<and> 20110 \<le> last (last (buildWeeks 20103 20110))
   \<and> concat (getWeeks 20103 20110) = [20101 .. 20110]
   \<and> length (last (getWeeks 20103 20110)) = 3"
proof -
  have a: "(20103::int) \<le> 20110" by simp
  have b: "(20101::int) = 20103 - (getDay 20103 + 6) mod 7" by (simp add: getDay_def)
  have c: "length (last (getWeeks 20103 20110)) = 3" by (simp add: gw_20103_20110)
  from calendar_weeks [OF a b] a c show ?thesis by blast
qed

text \<open>
  From Monday 2025-07-28 (day 20297) to Friday 2025-08-01 (day 20301), the end of the
  configured range, \<open>getWeeks\<close> yields one week of five dates.
\<close>

theorem getWeeks_truncates_counterexample:
  "(20297::int) \<le> 20301
   \<and> getWeeks 20297 20301 = [[20297, 20298, 20299, 20300, 20301]]
   \<and> length (last (getWeeks 20297 20301)) \<noteq> 7"
proof -
  have c: "getWeeks 20297 20301 = [[20297, 20298, 20299, 20300, 20301]]"
    by (simp add: getWeeks_def getDay_def getWeeksLoop.simps Let_def)
  show ?thesis by (simp add: c)
qed

text \<open>
  C4, as the code has it.  With the start date strictly after the end date, \<open>buildWeeks\<close>
  yields no week exactly when the end date is before the Monday on or before the start
  date; when the end date is on or after that Monday, it yields the one week of the start
  date.
\<close>

theorem reversed_range:
  assumes "end < start" and first: "first = start - (getDay start + 6) mod 7"
  shows "(buildWeeks start end = [] \<longleftrightarrow> end < first)
       \<and> (first \<le> end \<longrightarrow> buildWeeks start end = [[first .. first + 6]])"
proof (cases "end < first")
  case True
  then have "nat ((end - first) div 7 + 1) = 0" by simp
  then have "buildWeeks start end = []"
    using buildWeeks_eq [of start "end"] by (simp add: first)
  with True show ?thesis by simp
next
  case False
  have "start < first + 7" unfolding first by (rule monday_gt)
  with False assms(1) have "(end - first) div 7 = 0" by simp
  then have "nat ((end - first) div 7 + 1) = 1" by simp
  then have "buildWeeks start end = [[first .. first + 6]]"
    using buildWeeks_eq [of start "end"] by (simp add: first)
  with False show ?thesis by simp
qed

theorem reversed_range_witness:
  "(20095::int) < 20103 \<and> buildWeeks 20103 20095 = []"
proof -
  have a: "(20095::int) < 20103" by simp
  have b: "(20101::int) = 20103 - (getDay 20103 + 6) mod 7" by (simp add: getDay_def)
  from reversed_range [OF a b] a show ?thesis by simp
qed

text \<open>Start on Wednesday 2025-01-15, end on Tuesday 2025-01-14: one week is built.\<close>

theorem reversed_range_same_week_counterexample:
  "(20102::int) < 20103 \<and> buildWeeks 20103 20102 \<noteq> []"
  by (simp add: buildWeeks_def getDay_def weeksLoop.simps fillWeek.simps)

text \<open>
  C10.  The weeks of \<open>buildWeeks\<close> are contiguous: the first date of each week after the
  first is one day after the last date of the week before it, and the flattened sequence
  of all dates is the unbroken run of days from the first Monday on.
\<close>

theorem weeks_contiguous:
  "(\<forall>i. Suc i < length (buildWeeks start end) \<longrightarrow>
        hd (buildWeeks start end ! Suc i) = last (buildWeeks start end ! i) + 1)
   \<and> concat (buildWeeks start end) =
       [start - (getDay start + 6) mod 7 ..
        start - (getDay start + 6) mod 7 + 7 * int (length (buildWeeks start end)) - 1]"
proof -
  define c where "c = start - (getDay start + 6) mod 7"
  define n where "n = nat ((end - c) div 7 + 1)"
  have bw: "buildWeeks start end = map (\<lambda>j. [c + 7 * int j .. c + 7 * int j + 6]) [0..<n]"
    unfolding c_def n_def by (rule buildWeeks_eq)
  have len: "length (buildWeeks start end) = n" by (simp add: bw)
  have nth: "buildWeeks start end ! j = [c + 7 * int j .. c + 7 * int j + 6]" if "j < n" for j
    using that by (simp add: bw)
  have "concat (buildWeeks start end) = [c .. c + 7 * int n - 1]"
    unfolding bw by (rule concat_weeks)
  moreover have "hd (buildWeeks start end ! Suc i) = last (buildWeeks start end ! i) + 1"
    if "Suc i < length (buildWeeks start end)" for i
  proof -
    from that have i: "Suc i < n" "i < n" by (simp_all add: len)
    have "hd (buildWeeks start end ! Suc i) = c + 7 * int (Suc i)"
      by (simp only: nth [OF i(1)] hd_week)
    moreover have "last (buildWeeks start end ! i) = c + 7 * int i + 6"
      by (simp only: nth [OF i(2)] last_week)
    ultimately show ?thesis by simp
  qed
  ultimately show ?thesis unfolding len c_def by blast
qed

theorem weeks_contiguous_witness:
  "Suc 0 < length (buildWeeks 20103 20110)
   \<and> hd (buildWeeks 20103 20110 ! Suc 0) = last (buildWeeks 20103 20110 ! 0) + 1
   \<and> concat (buildWeeks 20103 20110) = [20101 .. 20114]"
proof -
  have a: "Suc 0 < length (buildWeeks 20103 20110)" by (simp add: bw_20103_20110)
  have b: "(20103::int) - (getDay 20103 + 6) mod 7 = 20101" by (simp add: getDay_def)
  have c: "length (buildWeeks 20103 20110) = 2" by (simp add: bw_20103_20110)
  from weeks_contiguous [of 20103 20110] a
  have "hd (buildWeeks 20103 20110 ! Suc 0) = last (buildWeeks 20103 20110 ! 0) + 1"
    and "concat (buildWeeks 20103 20110) = [20101 .. 20101 + 7 * int 2 - 1]"
    unfolding b c by blast+
  with a show ?thesis by simp
qed

section \<open>Properties of the Weather Join Index\<close>

lemma lookupHour_entry: "lookupHour idx k h = entry idx k (Some h)"
  by (simp add: lookupHour_def entry_def)

lemma entry_indexStep:
  "entry (indexStep m r) k h =
     (if take 10 (local_time r) = k \<and> getHours (local_time r) = h then Some r
      else entry m k h)"
  by (auto simp: entry_def indexStep_def Let_def split: option.splits)

lemma entry_foldl:
  "entry (foldl indexStep m rs) k h =
     (if filter (\<lambda>r. take 10 (local_time r) = k \<and> getHours (local_time r) = h) rs = []
      then entry m k h
      else Some (last (filter (\<lambda>r. take 10 (local_time r) = k \<and> getHours (local_time r) = h) rs)))"
proof (induction rs rule: rev_induct)
  case Nil
  show ?case by simp
next
  case (snoc r rs)
  show ?case
    by (simp add: entry_indexStep snoc)
qed

lemma entry_metarLookup:
  "entry (metarLookup rs) k h =
     (if filter (\<lambda>r. take 10 (local_time r) = k \<and> getHours (local_time r) = h) rs = []
      then None
      else Some (last (filter (\<lambda>r. take 10 (local_time r) = k \<and> getHours (local_time r) = h) rs)))"
  unfolding metarLookup_def entry_foldl by (simp add: entry_def)

text \<open>
  C6.  After building the index from any sequence of weather records, the read at
  \<open>(date, hour)\<close> returns the last record of the sequence with that date key and hour, and
  nothing when there is none; the pairs that have an entry are exactly the (date, hour)
  pairs of the source records, one entry each.
\<close>

theorem join_index_last_write_wins:
  "lookupHour (metarLookup rs) k h =
     (if filter (\<lambda>r. take 10 (local_time r) = k \<and> getHours (local_time r) = Some h) rs = []
      then None
      else Some (last (filter
             (\<lambda>r. take 10 (local_time r) = k \<and> getHours (local_time r) = Some h) rs)))
   \<and> {(k, h). entry (metarLookup rs) k h \<noteq> None}
       = (\<lambda>r. (take 10 (local_time r), getHours (local_time r))) ` set rs"
proof -
  have "{(k, h). entry (metarLookup rs) k h \<noteq> None}
       = (\<lambda>r. (take 10 (local_time r), getHours (local_time r))) ` set rs"
  proof -
    have "entry (metarLookup rs) k h \<noteq> None
        \<longleftrightarrow> (\<exists>r\<in>set rs. take 10 (local_time r) = k \<and> getHours (local_time r) = h)" for k h
      by (auto simp: entry_metarLookup filter_empty_conv)
    then show ?thesis by (auto simp: image_iff)
  qed
  moreover have "lookupHour (metarLookup rs) k h =
     (if filter (\<lambda>r. take 10 (local_time r) = k \<and> getHours (local_time r) = Some h) rs = []
      then None
      else Some (last (filter
             (\<lambda>r. take 10 (local_time r) = k \<and> getHours (local_time r) = Some h) rs)))"
    unfolding lookupHour_entry by (rule entry_metarLookup)
  ultimately show ?thesis by (rule conjI [rotated])
qed

text \<open>The spec's example: two records at 2025-01-01T05:00, VFR then IFR.\<close>

theorem join_index_last_write_wins_witness:
  "lookupHour
     (metarLookup
        [\<lparr>local_time = ''2025-01-01T05:00'', flight_category = ''VFR'', temp_C = Some 2\<rparr>,
         \<lparr>local_time = ''2025-01-01T05:00'', flight_category = ''IFR'', temp_C = Some 1\<rparr>])
     ''2025-01-01'' 5
   = Some \<lparr>local_time = ''2025-01-01T05:00'', flight_category = ''IFR'', temp_C = Some 1\<rparr>"
proof -
  have h: "getHours ''2025-01-01T05:00'' = Some 5"
    by (simp add: getHours_def toNumber_def is_digit_def digit_val_def)
  show ?thesis
    using join_index_last_write_wins
      [of "[\<lparr>local_time = ''2025-01-01T05:00'', flight_category = ''VFR'', temp_C = Some 2\<rparr>,
         \<lparr>local_time = ''2025-01-01T05:00'', flight_category = ''IFR'', temp_C = Some 1\<rparr>]"
       "''2025-01-01''" 5]
    by (simp add: h)
qed

section \<open>Properties of the Category Membership Test\<close>

lemma ex_step60:
  "(\<exists>k::nat. P (t + 60 * k)) \<longleftrightarrow> P t \<or> (\<exists>k. P (t + 60 + 60 * k))"
proof
  assume "\<exists>k. P (t + 60 * k)"
  then obtain k where k: "P (t + 60 * k)" ..
  show "P t \<or> (\<exists>k. P (t + 60 + 60 * k))"
  proof (cases k)
    case 0
    with k show ?thesis by simp
  next
    case (Suc j)
    with k have "P (t + 60 + 60 * j)" by (simp add: add.assoc)
    then show ?thesis by blast
  qed
next
  assume "P t \<or> (\<exists>k. P (t + 60 + 60 * k))"
  then show "\<exists>k. P (t + 60 * k)"
  proof
    assume "P t"
    then have "P (t + 60 * 0)" by simp
    then show ?thesis by (rule exI)
  next
    assume "\<exists>k. P (t + 60 + 60 * k)"
    then obtain j where "P (t + 60 + 60 * j)" ..
    then have "P (t + 60 * Suc j)" by (simp add: add.assoc)
    then show ?thesis by (rule exI)
  qed
qed

lemma visitedRecords_step:
  assumes "t < eMin"
  shows "visitedRecords idx date t eMin =
     {rec. lookupHour idx
          (if 24 \<le> t div 60 then isoDate (date + 1) else isoDate date)
          (if 24 \<le> t div 60 then (t div 60) mod 24 else t div 60) = Some rec}
     \<union> visitedRecords idx date (t + 60) eMin"
proof -
  have "rec \<in> visitedRecords idx date t eMin \<longleftrightarrow>
      lookupHour idx
          (if 24 \<le> t div 60 then isoDate (date + 1) else isoDate date)
          (if 24 \<le> t div 60 then (t div 60) mod 24 else t div 60) = Some rec
      \<or> rec \<in> visitedRecords idx date (t + 60) eMin" for rec
    unfolding visitedRecords_def mem_Collect_eq
    by (subst ex_step60) (simp only: assms simp_thms)
  then show ?thesis by blast
qed

lemma visitedRecords_done: "\<not> t < eMin \<Longrightarrow> visitedRecords idx date t eMin = {}"
  by (auto simp: visitedRecords_def)

lemma hasCategoryLoop_iff:
  "hasCategoryLoop idx date cat t eMin
     \<longleftrightarrow> (\<exists>rec\<in>visitedRecords idx date t eMin. flight_category rec = cat)"
proof (induction idx date cat t eMin rule: hasCategoryLoop.induct)
  case (1 idx date cat t eMin)
  show ?case
  proof (cases "t < eMin")
    case False
    then show ?thesis
      by (subst hasCategoryLoop.simps) (simp add: visitedRecords_done)
  next
    case True
    show ?thesis
    proof (cases "case lookupHour idx
          (if 24 \<le> t div 60 then isoDate (date + 1) else isoDate date)
          (if 24 \<le> t div 60 then (t div 60) mod 24 else t div 60)
        of Some r \<Rightarrow> flight_category r = cat | None \<Rightarrow> False")
      case hit: True
      then have "hasCategoryLoop idx date cat t eMin"
        using True by (subst hasCategoryLoop.simps) (simp add: Let_def)
      moreover from hit have "\<exists>rec\<in>visitedRecords idx date t eMin. flight_category rec = cat"
        unfolding visitedRecords_step [OF True] by (auto split: option.splits)
      ultimately show ?thesis by simp
    next
      case miss: False
      then have "hasCategoryLoop idx date cat t eMin
          = hasCategoryLoop idx date cat (t + 60) eMin"
        using True by (subst hasCategoryLoop.simps) (simp add: Let_def)
      also have "\<dots> \<longleftrightarrow> (\<exists>rec\<in>visitedRecords idx date (t + 60) eMin. flight_category rec = cat)"
        using miss by (intro 1 [OF True refl refl refl refl refl]) simp
      also have "\<dots> \<longleftrightarrow> (\<exists>rec\<in>visitedRecords idx date t eMin. flight_category rec = cat)"
        unfolding visitedRecords_step [OF True] using miss by (auto split: option.splits)
      finally show ?thesis .
    qed
  qed
qed

lemma matchesLoop_iff:
  "matchesLoop idx catFilters date t eMin
     \<longleftrightarrow> (\<exists>rec\<in>visitedRecords idx date t eMin.
            map_of catFilters (flight_category rec) = Some True)"
proof (induction idx catFilters date t eMin rule: matchesLoop.induct)
  case (1 idx catFilters date t eMin)
  show ?case
  proof (cases "t < eMin")
    case False
    then show ?thesis
      by (subst matchesLoop.simps) (simp add: visitedRecords_done)
  next
    case True
    show ?thesis
    proof (cases "case lookupHour idx
          (if 24 \<le> t div 60 then isoDate (date + 1) else isoDate date)
          (if 24 \<le> t div 60 then (t div 60) mod 24 else t div 60)
        of Some r \<Rightarrow> map_of catFilters (flight_category r) = Some True | None \<Rightarrow> False")
      case hit: True
      then have "matchesLoop idx catFilters date t eMin"
        using True by (subst matchesLoop.simps) (simp add: Let_def)
      moreover from hit have "\<exists>rec\<in>visitedRecords idx date t eMin.
            map_of catFilters (flight_category rec) = Some True"
        unfolding visitedRecords_step [OF True] by (auto split: option.splits)
      ultimately show ?thesis by simp
    next
      case miss: False
      then have "matchesLoop idx catFilters date t eMin
          = matchesLoop idx catFilters date (t + 60) eMin"
        using True by (subst matchesLoop.simps) (simp add: Let_def)
      also have "\<dots> \<longleftrightarrow> (\<exists>rec\<in>visitedRecords idx date (t + 60) eMin.
            map_of catFilters (flight_category rec) = Some True)"
        using miss by (intro 1 [OF True refl refl refl refl refl]) simp
      also have "\<dots> \<longleftrightarrow> (\<exists>rec\<in>visitedRecords idx date t eMin.
            map_of catFilters (flight_category rec) = Some True)"
        unfolding visitedRecords_step [OF True] using miss by (auto split: option.splits)
      finally show ?thesis .
    qed
  qed
qed

text \<open>
  C2.  With clock codes that parse, \<open>sMin\<close> and \<open>eMin\<close> the minute-of-day bounds and 1440
  added to \<open>eMin\<close> when the end is at or before the start, \<open>blockHasCategory\<close> is true
  exactly when one of the buckets visited by stepping from \<open>sMin\<close> in 60-minute increments
  while below \<open>eMin\<close> holds an indexed record of the target category; a stepped hour of 24
  or more is looked up on the next calendar date with the hour reduced modulo 24.
  \<open>blockMatchesFilters\<close> of \<open>App (19).js\<close> walks the same buckets and asks for a record
  whose category is enabled.
\<close>

theorem membership_stepping:
  assumes "toNumber (take 2 start) = Some sh" and "toNumber (drop 2 start) = Some sm"
    and "toNumber (take 2 end) = Some eh" and "toNumber (drop 2 end) = Some em"
    and "sMin = sh * 60 + sm"
    and "eMin = (if eh * 60 + em \<le> sMin then eh * 60 + em + 1440 else eh * 60 + em)"
  shows "(blockHasCategory idx date start end cat \<longleftrightarrow>
          (\<exists>k rec. sMin + 60 * k < eMin \<and>
             lookupHour idx
               (if 24 \<le> (sMin + 60 * k) div 60 then isoDate (date + 1) else isoDate date)
               (if 24 \<le> (sMin + 60 * k) div 60 then ((sMin + 60 * k) div 60) mod 24
                else (sMin + 60 * k) div 60) = Some rec
             \<and> flight_category rec = cat))
       \<and> (blockMatchesFilters idx catFilters date start end \<longleftrightarrow>
          (\<exists>k rec. sMin + 60 * k < eMin \<and>
             lookupHour idx
               (if 24 \<le> (sMin + 60 * k) div 60 then isoDate (date + 1) else isoDate date)
               (if 24 \<le> (sMin + 60 * k) div 60 then ((sMin + 60 * k) div 60) mod 24
                else (sMin + 60 * k) div 60) = Some rec
             \<and> map_of catFilters (flight_category rec) = Some True))"
proof -
  have a: "blockHasCategory idx date start end cat = hasCategoryLoop idx date cat sMin eMin"
    by (simp add: blockHasCategory_def assms Let_def)
  have b: "blockMatchesFilters idx catFilters date start end
      = matchesLoop idx catFilters date sMin eMin"
    by (simp add: blockMatchesFilters_def assms Let_def)
  show ?thesis
    unfolding a b hasCategoryLoop_iff matchesLoop_iff visitedRecords_def by blast
qed

text \<open>Evaluation of the index and of two date keys.\<close>

lemmas wx_simps = metarLookup_def indexStep_def getHours_def toNumber_def is_digit_def
  digit_val_def lookupHour_def Let_def

lemma isoDate_20103: "isoDate 20103 = ''2025-01-15''"
  by code_simp

lemma isoDate_20104: "isoDate 20104 = ''2025-01-16''"
  by code_simp

text \<open>
  A block from 23:30 to 01:30 on 2025-01-15 and one IFR record at 00:00 of 2025-01-16:
  the second step, minute 1470, is hour 24, read as hour 0 of the next date.
\<close>

theorem membership_stepping_witness:
  "blockHasCategory
     (metarLookup
        [\<lparr>local_time = ''2025-01-16T00:00'', flight_category = ''IFR'', temp_C = None\<rparr>])
     20103 ''2330'' ''0130'' ''IFR''"
proof -
  let ?idx = "metarLookup
        [\<lparr>local_time = ''2025-01-16T00:00'', flight_category = ''IFR'', temp_C = None\<rparr>]"
  let ?rec = "\<lparr>local_time = ''2025-01-16T00:00'', flight_category = ''IFR'', temp_C = None\<rparr>"
  have p: "toNumber (take 2 ''2330'') = Some 23" "toNumber (drop 2 ''2330'') = Some 30"
    "toNumber (take 2 ''0130'') = Some 1" "toNumber (drop 2 ''0130'') = Some 30"
    by (simp_all add: toNumber_def is_digit_def digit_val_def)
  have s: "(1410::nat) = 23 * 60 + 30" by simp
  have e: "(1530::nat) = (if 1 * 60 + 30 \<le> (1410::nat) then 1 * 60 + 30 + 1440 else 1 * 60 + 30)"
    by simp
  have l: "lookupHour ?idx ''2025-01-16'' 0 = Some ?rec"
    by (simp add: wx_simps)
  have "(1410::nat) + 60 * 1 < 1530 \<and>
      lookupHour ?idx
        (if 24 \<le> (1410 + 60 * 1) div (60::nat) then isoDate (20103 + 1) else isoDate 20103)
        (if 24 \<le> (1410 + 60 * 1) div (60::nat) then ((1410 + 60 * 1) div 60) mod 24
         else (1410 + 60 * 1) div 60) = Some ?rec
      \<and> flight_category ?rec = ''IFR''"
    by (simp add: isoDate_20104 l)
  then have "\<exists>k rec. (1410::nat) + 60 * k < 1530 \<and>
      lookupHour ?idx
        (if 24 \<le> (1410 + 60 * k) div 60 then isoDate (20103 + 1) else isoDate 20103)
        (if 24 \<le> (1410 + 60 * k) div 60 then ((1410 + 60 * k) div 60) mod 24
         else (1410 + 60 * k) div 60) = Some rec
      \<and> flight_category rec = ''IFR''"
    by blast
  with membership_stepping [OF p s e, of ?idx 20103 "''IFR''" "[]"] show ?thesis
    by blast
qed

section \<open>Properties of the Overlay Aggregator\<close>

lemma matches_iff_some_category:
  assumes "distinct (map fst catFilters)"
  shows "blockMatchesFilters idx catFilters date start end
     \<longleftrightarrow> (\<exists>c. (c, True) \<in> set catFilters \<and> blockHasCategory idx date start end c)"
proof (cases "\<exists>sh sm eh em. toNumber (take 2 start) = Some sh \<and> toNumber (drop 2 start) = Some sm
    \<and> toNumber (take 2 end) = Some eh \<and> toNumber (drop 2 end) = Some em")
  case True
  then obtain sh sm eh em where p: "toNumber (take 2 start) = Some sh"
    "toNumber (drop 2 start) = Some sm" "toNumber (take 2 end) = Some eh"
    "toNumber (drop 2 end) = Some em" by blast
  define sMin where "sMin = sh * 60 + sm"
  define eMin where "eMin = (if eh * 60 + em \<le> sMin then eh * 60 + em + 1440 else eh * 60 + em)"
  have a: "blockHasCategory idx date start end c = hasCategoryLoop idx date c sMin eMin" for c
    by (simp add: blockHasCategory_def p Let_def sMin_def eMin_def)
  have b: "blockMatchesFilters idx catFilters date start end
      = matchesLoop idx catFilters date sMin eMin"
    by (simp add: blockMatchesFilters_def p Let_def sMin_def eMin_def)
  have m: "map_of catFilters c = Some True \<longleftrightarrow> (c, True) \<in> set catFilters" for c
    using assms by simp
  show ?thesis
    unfolding a b hasCategoryLoop_iff matchesLoop_iff m by blast
next
  case False
  then have "\<not> blockMatchesFilters idx catFilters date start end"
    by (auto simp: blockMatchesFilters_def split: option.splits)
  moreover from False have "\<not> blockHasCategory idx date start end c" for c
    by (auto simp: blockHasCategory_def split: option.splits)
  ultimately show ?thesis by blast
qed

lemma some_enabled_iff:
  "list_ex (\<lambda>(c, on). on \<and> blockHasCategory idx date start end c) catFilters
     \<longleftrightarrow> (\<exists>c. (c, True) \<in> set catFilters \<and> blockHasCategory idx date start end c)"
  by (auto simp: list_ex_iff)

text \<open>
  C7.  For an aircraft of the dataset and the blocks of the date, \<open>renderBlocks\<close> returns
  one entry per block: the segment of the block exactly when some enabled category
  satisfies \<open>blockHasCategory\<close> for it, and \<open>null\<close> otherwise, so that a block with no
  enabled-category match produces no segment.  With \<open>VFR\<close> disabled, a block that no
  category other than \<open>VFR\<close> matches is suppressed.  \<open>renderBlocks\<close> of \<open>App (19).js\<close>
  returns the same entries, and the row cell shows them for a visible aircraft only.
\<close>

theorem overlay_suppression:
  assumes "data tail = Some blocksByDate"
    and "blocks = (case blocksByDate (isoDate date) of None \<Rightarrow> [] | Some bs \<Rightarrow> bs)"
    and "distinct (map fst catFilters)"
  shows "\<exists>out. renderBlocks data idx catFilters hourPx tail date = Inr out
       \<and> renderBlocks_19 data idx catFilters hourPx tail date = Inr out
       \<and> aircraftCell visible data idx catFilters hourPx tail date
           = (if visible tail then Inr out else Inr [])
       \<and> length out = length blocks
       \<and> (\<forall>i<length blocks.
            (out ! i \<noteq> None \<longleftrightarrow>
               (\<exists>c. (c, True) \<in> set catFilters
                  \<and> blockHasCategory idx date (fst (blocks ! i)) (snd (blocks ! i)) c))
          \<and> (out ! i \<noteq> None \<longrightarrow>
               out ! i = Some (blockSegment hourPx (fst (blocks ! i)) (snd (blocks ! i))))
          \<and> ((''VFR'', True) \<notin> set catFilters
               \<and> (\<forall>c. c \<noteq> ''VFR'' \<longrightarrow>
                     \<not> blockHasCategory idx date (fst (blocks ! i)) (snd (blocks ! i)) c)
               \<longrightarrow> out ! i = None))"
proof -
  define body where "body = (\<lambda>(start, end).
      if \<not> (\<exists>c. (c, True) \<in> set catFilters \<and> blockHasCategory idx date start end c)
      then None else Some (blockSegment hourPx start end))"
  define out where "out = map body blocks"
  have r: "renderBlocks data idx catFilters hourPx tail date = Inr out"
    by (simp add: renderBlocks_def assms(1) assms(2) [symmetric] Let_def some_enabled_iff
        out_def body_def)
  have r19: "renderBlocks_19 data idx catFilters hourPx tail date = Inr out"
    by (simp add: renderBlocks_19_def assms(1) assms(2) [symmetric] Let_def
        matches_iff_some_category [OF assms(3)] out_def body_def)
  have cell: "aircraftCell visible data idx catFilters hourPx tail date
           = (if visible tail then Inr out else Inr [])"
    by (simp add: aircraftCell_def r)
  have len: "length out = length blocks" by (simp add: out_def)
  have each: "(out ! i \<noteq> None \<longleftrightarrow>
               (\<exists>c. (c, True) \<in> set catFilters
                  \<and> blockHasCategory idx date (fst (blocks ! i)) (snd (blocks ! i)) c))
          \<and> (out ! i \<noteq> None \<longrightarrow>
               out ! i = Some (blockSegment hourPx (fst (blocks ! i)) (snd (blocks ! i))))
          \<and> ((''VFR'', True) \<notin> set catFilters
               \<and> (\<forall>c. c \<noteq> ''VFR'' \<longrightarrow>
                     \<not> blockHasCategory idx date (fst (blocks ! i)) (snd (blocks ! i)) c)
               \<longrightarrow> out ! i = None)"
    if "i < length blocks" for i
  proof -
    have o: "out ! i = body (blocks ! i)" using that by (simp add: out_def)
    have b: "body (blocks ! i) =
      (if \<not> (\<exists>c. (c, True) \<in> set catFilters
                \<and> blockHasCategory idx date (fst (blocks ! i)) (snd (blocks ! i)) c)
       then None else Some (blockSegment hourPx (fst (blocks ! i)) (snd (blocks ! i))))"
      by (simp add: body_def case_prod_beta)
    show ?thesis
    proof (cases "\<exists>c. (c, True) \<in> set catFilters
                \<and> blockHasCategory idx date (fst (blocks ! i)) (snd (blocks ! i)) c")
      case True
      then have v: "out ! i = Some (blockSegment hourPx (fst (blocks ! i)) (snd (blocks ! i)))"
        unfolding o b by simp
      from True obtain c where c: "(c, True) \<in> set catFilters"
        "blockHasCategory idx date (fst (blocks ! i)) (snd (blocks ! i)) c" by blast
      have "\<not> ((''VFR'', True) \<notin> set catFilters
               \<and> (\<forall>c. c \<noteq> ''VFR'' \<longrightarrow>
                     \<not> blockHasCategory idx date (fst (blocks ! i)) (snd (blocks ! i)) c))"
        using c by (cases "c = ''VFR''") auto
      with True v show ?thesis by simp
    next
      case False
      then have "out ! i = None" unfolding o b by simp
      with False show ?thesis by simp
    qed
  qed
  from r r19 cell len each show ?thesis by blast
qed

text \<open>
  Block 23:30 to 01:30 on 2025-01-15 with VFR observed at 23:00 and the VFR filter off: the
  block is suppressed.
\<close>

theorem overlay_suppression_witness:
  "renderBlocks
     [''N65620'' \<mapsto> [''2025-01-15'' \<mapsto> [(''2330'', ''0130'')]]]
     (metarLookup
        [\<lparr>local_time = ''2025-01-15T23:00'', flight_category = ''VFR'', temp_C = None\<rparr>])
     [(''LIFR'', True), (''IFR'', True), (''MVFR'', True), (''VFR'', False)]
     4 ''N65620'' 20103 = Inr [None]"
proof -
  let ?data = "[''N65620'' \<mapsto> [''2025-01-15'' \<mapsto> [(''2330'', ''0130'')]]]"
  let ?idx = "metarLookup
        [\<lparr>local_time = ''2025-01-15T23:00'', flight_category = ''VFR'', temp_C = None\<rparr>]"
  let ?cf = "[(''LIFR'', True), (''IFR'', True), (''MVFR'', True), (''VFR'', False)]"
  have a: "?data ''N65620'' = Some [''2025-01-15'' \<mapsto> [(''2330'', ''0130'')]]" by simp
  have b: "[(''2330'', ''0130'')]
      = (case [''2025-01-15'' \<mapsto> [(''2330'', ''0130'')]] (isoDate 20103) of
           None \<Rightarrow> [] | Some bs \<Rightarrow> bs)"
    by (simp add: isoDate_20103)
  have c: "distinct (map fst ?cf)" by simp
  have only: "\<forall>c. c \<noteq> ''VFR'' \<longrightarrow> \<not> blockHasCategory ?idx 20103 ''2330'' ''0130'' c"
    by (simp add: blockHasCategory_def hasCategoryLoop.simps wx_simps isoDate_20103
        isoDate_20104)
  have off: "(''VFR'', True) \<notin> set ?cf" by simp
  from overlay_suppression [where data = ?data and tail = "''N65620''"
      and blocksByDate = "[''2025-01-15'' \<mapsto> [(''2330'', ''0130'')]]"
      and blocks = "[(''2330'', ''0130'')]" and date = 20103 and catFilters = ?cf
      and idx = ?idx and hourPx = 4 and visible = "\<lambda>t. True", OF a b c]
  obtain out where o: "renderBlocks ?data ?idx ?cf 4 ''N65620'' 20103 = Inr out"
    "length out = length [(''2330'', ''0130'')]"
    "(''VFR'', True) \<notin> set ?cf
       \<and> (\<forall>c. c \<noteq> ''VFR'' \<longrightarrow>
             \<not> blockHasCategory ?idx 20103 (fst ([(''2330'', ''0130'')] ! 0))
                (snd ([(''2330'', ''0130'')] ! 0)) c)
       \<longrightarrow> out ! 0 = None"
    by auto
  from o(3) off only have "out ! 0 = None" by simp
  with o(2) have "out = [None]" by (cases out) simp_all
  with o(1) show ?thesis by simp
qed

section \<open>The test against the hours touched by a block\<close>

text \<open>
  Every hour that the loop reads is touched by the interval: a positive answer of
  \<open>blockHasCategory\<close> is one of the specification's reading too.
\<close>

lemma blockHasCategory_sound:
  assumes "blockHasCategory idx date start end cat"
  shows "spec_blockHasCategory idx date start end cat"
proof -
  from assms obtain sh sm eh em where p: "toNumber (take 2 start) = Some sh"
    "toNumber (drop 2 start) = Some sm" "toNumber (take 2 end) = Some eh"
    "toNumber (drop 2 end) = Some em"
    by (auto simp: blockHasCategory_def split: option.splits)
  define sMin where "sMin = sh * 60 + sm"
  define eMin where "eMin = (if eh * 60 + em \<le> sMin then eh * 60 + em + 1440 else eh * 60 + em)"
  from assms have "hasCategoryLoop idx date cat sMin eMin"
    by (simp add: blockHasCategory_def p Let_def sMin_def eMin_def)
  then obtain k rec where k: "sMin + 60 * k < eMin"
    and l: "lookupHour idx
          (if 24 \<le> (sMin + 60 * k) div 60 then isoDate (date + 1) else isoDate date)
          (if 24 \<le> (sMin + 60 * k) div 60 then ((sMin + 60 * k) div 60) mod 24
           else (sMin + 60 * k) div 60) = Some rec"
    and c: "flight_category rec = cat"
    unfolding hasCategoryLoop_iff visitedRecords_def by blast
  define h where "h = (sMin + 60 * k) div 60"
  have h1: "sMin div 60 \<le> h" unfolding h_def by (rule div_le_mono) simp
  have h2: "h < (eMin + 59) div 60" unfolding h_def using k by simp
  have "lookupHour idx (if h < 24 then isoDate date else isoDate (date + 1)) (h mod 24) = Some rec"
    using l unfolding h_def [symmetric] by (cases "h < 24") simp_all
  with c h1 h2 have "list_ex
                (\<lambda>h. case lookupHour idx (if h < 24 then isoDate date else isoDate (date + 1))
                            (h mod 24) of
                       Some r \<Rightarrow> flight_category r = cat
                     | None \<Rightarrow> False)
                [sMin div 60 ..< (eMin + 59) div 60]"
    unfolding list_ex_iff by (intro bexI [of _ h]) simp_all
  then show ?thesis
    by (simp add: spec_blockHasCategory_def p Let_def sMin_def eMin_def)
qed

text \<open>
  C1 does not hold of the code.  Block 23:30 to 01:30 on 2025-01-15 (day 20103), with VFR
  observed at 23:00 and at 00:00 and IFR at 01:00 of 2025-01-16: the interval touches hour
  1 of 2025-01-16, whose observation is IFR, and the reading of the specification is true
  for IFR; \<open>blockHasCategory\<close> steps through minutes 1410 and 1470 only (hours 23 and 0) and
  returns false.
\<close>

theorem last_touched_hour_not_examined:
  "lookupHour
     (metarLookup
        [\<lparr>local_time = ''2025-01-15T23:00'', flight_category = ''VFR'', temp_C = None\<rparr>,
         \<lparr>local_time = ''2025-01-16T00:00'', flight_category = ''VFR'', temp_C = None\<rparr>,
         \<lparr>local_time = ''2025-01-16T01:00'', flight_category = ''IFR'', temp_C = None\<rparr>])
     (isoDate (20103 + 1)) 1
     = Some \<lparr>local_time = ''2025-01-16T01:00'', flight_category = ''IFR'', temp_C = None\<rparr>
   \<and> \<not> blockHasCategory
     (metarLookup
        [\<lparr>local_time = ''2025-01-15T23:00'', flight_category = ''VFR'', temp_C = None\<rparr>,
         \<lparr>local_time = ''2025-01-16T00:00'', flight_category = ''VFR'', temp_C = None\<rparr>,
         \<lparr>local_time = ''2025-01-16T01:00'', flight_category = ''IFR'', temp_C = None\<rparr>])
     20103 ''2330'' ''0130'' ''IFR''
   \<and> spec_blockHasCategory
     (metarLookup
        [\<lparr>local_time = ''2025-01-15T23:00'', flight_category = ''VFR'', temp_C = None\<rparr>,
         \<lparr>local_time = ''2025-01-16T00:00'', flight_category = ''VFR'', temp_C = None\<rparr>,
         \<lparr>local_time = ''2025-01-16T01:00'', flight_category = ''IFR'', temp_C = None\<rparr>])
     20103 ''2330'' ''0130'' ''IFR''"
proof -
  let ?idx = "metarLookup
        [\<lparr>local_time = ''2025-01-15T23:00'', flight_category = ''VFR'', temp_C = None\<rparr>,
         \<lparr>local_time = ''2025-01-16T00:00'', flight_category = ''VFR'', temp_C = None\<rparr>,
         \<lparr>local_time = ''2025-01-16T01:00'', flight_category = ''IFR'', temp_C = None\<rparr>]"
  have d: "isoDate (20103 + 1) = ''2025-01-16''" by (simp add: isoDate_20104)
  have a: "lookupHour ?idx ''2025-01-16'' 1
     = Some \<lparr>local_time = ''2025-01-16T01:00'', flight_category = ''IFR'', temp_C = None\<rparr>"
    by (simp add: wx_simps)
  have b: "\<not> blockHasCategory ?idx 20103 ''2330'' ''0130'' ''IFR''"
    by (simp add: blockHasCategory_def hasCategoryLoop.simps wx_simps isoDate_20103
        isoDate_20104)
  have u: "[(1410::nat) div 60 ..< (1530 + 59) div 60] = [23, 24, 25]"
    by (simp add: upt_conv_Cons)
  have c: "spec_blockHasCategory ?idx 20103 ''2330'' ''0130'' ''IFR''"
    by (simp add: spec_blockHasCategory_def u wx_simps isoDate_20103 isoDate_20104)
  from a b c show ?thesis unfolding d by blast
qed

end
